theory Spec2Isabelle
  imports Main "HOL-Library.Sublist"
begin

section \<open>Strings\<close>

text \<open>
  A JavaScript string is modelled as a \<^typ>\<open>string\<close>: a list of code units, each below 256
  (the ASCII and Latin-1 range).  The string methods that \<open>index.js\<close> calls are
  defined here, one function per method.
\<close>

definition LF :: char where
  "LF = CHR 0x0A"

definition CR :: char where
  "CR = CHR 0x0D"

definition backslash :: char where
  "backslash = CHR 0x5C"

text \<open>
  The code units that \<open>String.prototype.trim\<close> strips and that the regular expression
  class \<open>\s\<close> matches: tab, line feed, vertical tab, form feed, carriage return, space
  and the no-break space.
\<close>

definition isWhiteSpace :: "char \<Rightarrow> bool" where
  "isWhiteSpace c = ((of_char c :: nat) \<in> set [9, 10, 11, 12, 13, 32, 160])"

definition trim :: "string \<Rightarrow> string" where
  "trim s = rev (dropWhile isWhiteSpace (rev (dropWhile isWhiteSpace s)))"

text \<open>\<open>s.startsWith(p)\<close>.\<close>

definition startsWith :: "string \<Rightarrow> string \<Rightarrow> bool" where
  "startsWith s p = (take (length p) s = p)"

text \<open>\<open>s.split(c)\<close> for a one-character separator: the empty string gives one empty piece.\<close>

fun splitChar :: "char \<Rightarrow> string \<Rightarrow> string list" where
  "splitChar c [] = [[]]"
| "splitChar c (x # xs) =
     (if x = c then [] # splitChar c xs
      else (case splitChar c xs of
              [] \<Rightarrow> [[x]]
            | w # ws \<Rightarrow> (x # w) # ws))"

text \<open>\<open>s.split(/\s+/)\<close>: the pieces between maximal runs of white space.\<close>

function splitWhitespace :: "string \<Rightarrow> string list" where
  "splitWhitespace s =
     (case dropWhile (\<lambda>c. \<not> isWhiteSpace c) s of
        [] \<Rightarrow> [takeWhile (\<lambda>c. \<not> isWhiteSpace c) s]
      | c # cs \<Rightarrow> takeWhile (\<lambda>c. \<not> isWhiteSpace c) s # splitWhitespace (dropWhile isWhiteSpace cs))"
  by pat_completeness auto

lemma length_dropWhile_tail:
  "dropWhile P s = c # cs \<Longrightarrow> length (dropWhile Q cs) < length s"
proof -
  assume h: "dropWhile P s = c # cs"
  have "length (dropWhile Q cs) \<le> length cs" by (rule length_dropWhile_le)
  moreover have "length (c # cs) \<le> length s" using length_dropWhile_le [of P s] h by simp
  ultimately show ?thesis by simp
qed

termination splitWhitespace
  by (relation "measure length") (auto simp: length_dropWhile_tail)

declare splitWhitespace.simps [simp del]

text \<open>\<open>s.toLowerCase()\<close> on code units below 256: the letters A to Z and the Latin-1
  capitals (0xC0 to 0xDE without the multiplication sign 0xD7) move up by 32.\<close>

definition toLowerChar :: "char \<Rightarrow> char" where
  "toLowerChar c =
     (let n = (of_char c :: nat)
      in if (65 \<le> n \<and> n \<le> 90) \<or> (192 \<le> n \<and> n \<le> 222 \<and> n \<noteq> 215)
         then char_of (n + 32) else c)"

definition toLowerCase :: "string \<Rightarrow> string" where
  "toLowerCase s = map toLowerChar s"

text \<open>\<open>hay.includes(needle)\<close>: a scan for the needle at every position of the haystack.\<close>

fun includesStr :: "string \<Rightarrow> string \<Rightarrow> bool" where
  "includesStr [] needle = (needle = [])"
| "includesStr (x # xs) needle =
     (if startsWith (x # xs) needle then True else includesStr xs needle)"

text \<open>\<open>s.replace(/c/g, rep)\<close> for a pattern that is one literal character and a replacement
  without \<open>$\<close>: every occurrence of the character becomes \<open>rep\<close>.\<close>

definition replaceAll :: "char \<Rightarrow> string \<Rightarrow> string \<Rightarrow> string" where
  "replaceAll c rep s = concat (map (\<lambda>x. if x = c then rep else [x]) s)"

text \<open>\<open>s.replace(/^\//, '')\<close>: one leading slash is removed.\<close>

fun stripLeadingSlash :: "string \<Rightarrow> string" where
  "stripLeadingSlash [] = []"
| "stripLeadingSlash (x # xs) = (if x = CHR ''/'' then xs else x # xs)"

text \<open>\<open>xs.join(sep)\<close>.\<close>

fun joinWith :: "string \<Rightarrow> string list \<Rightarrow> string" where
  "joinWith sep [] = []"
| "joinWith sep [x] = x"
| "joinWith sep (x # y # ys) = x @ sep @ joinWith sep (y # ys)"

text \<open>A JavaScript \<open>Set\<close> of strings keeps insertion order and ignores a repeated \<open>add\<close>.\<close>

definition setAdd :: "string list \<Rightarrow> string \<Rightarrow> string list" where
  "setAdd xs x = (if x \<in> set xs then xs else xs @ [x])"

section \<open>Errors\<close>

text \<open>
  What the code can throw: a \<open>SyntaxError\<close> from \<open>new RegExp\<close>, and the file system
  errors of \<open>fs.readFileSync\<close> and \<open>fs.readdirSync\<close>.  \<open>Unsupported\<close> marks a regular
  expression that uses syntax outside the fragment modelled below: the model says
  nothing about what the program does with it.
\<close>

datatype exn = SyntaxError | Unsupported | ENOENT | EACCES | EISDIR | ENOTDIR

section \<open>Regular expressions\<close>

text \<open>
  The fragment of the ECMAScript pattern syntax (without flags) that is modelled:
  literal characters, \<open>.\<close>, the assertions \<open>^\<close> and \<open>$\<close>, alternation, groups, the
  quantifiers \<open>*\<close>, \<open>+\<close>, \<open>?\<close> (greedy or lazy), and a backslash before a syntax
  character.  A closing bracket or brace on its own is a literal character.  Character
  classes, opening braces, look-around groups and the other escapes are \<open>Unsupported\<close>.
\<close>

datatype re = Chr char | Dot | Bol | Eol | Eps | Seq re re | Alt re re | Star re

datatype tok = TChar char | TDot | TBol | TEol | TBar | TStar | TPlus | TQuest | TOpen | TClose

definition syntaxChars :: string where
  "syntaxChars = [CHR ''^'', CHR ''$'', backslash, CHR ''.'', CHR ''*'', CHR ''+'', CHR ''?'',
                  CHR ''('', CHR '')'', CHR ''['', CHR '']'', CHR ''{'', CHR ''}'', CHR ''|'',
                  CHR ''/'']"

fun consTok :: "tok \<Rightarrow> exn + tok list \<Rightarrow> exn + tok list" where
  "consTok t (Inl e) = Inl e"
| "consTok t (Inr ts) = Inr (t # ts)"

fun charTok :: "char \<Rightarrow> tok" where
  "charTok c =
     (if c = CHR ''.'' then TDot
      else if c = CHR ''^'' then TBol
      else if c = CHR ''$'' then TEol
      else if c = CHR ''|'' then TBar
      else if c = CHR ''*'' then TStar
      else if c = CHR ''+'' then TPlus
      else if c = CHR ''?'' then TQuest
      else if c = CHR ''('' then TOpen
      else if c = CHR '')'' then TClose
      else TChar c)"

text \<open>A backslash at the end of the source is a syntax error; a backslash before a syntax
  character gives that character as a literal.\<close>

fun lexRegex :: "string \<Rightarrow> exn + tok list" where
  "lexRegex [] = Inr []"
| "lexRegex (c # cs) =
     (if c = backslash then
        (case cs of
           [] \<Rightarrow> Inl SyntaxError
         | d # ds \<Rightarrow>
             if d \<in> set syntaxChars then consTok (TChar d) (lexRegex ds)
             else Inl Unsupported)
      else if c = CHR ''['' \<or> c = CHR ''{'' then Inl Unsupported
      else if c = CHR ''('' \<and> startsWith cs ''?'' then Inl Unsupported
      else consTok (charTok c) (lexRegex cs))"

text \<open>
  The parser keeps, for the group it is in, the alternatives already closed by \<open>|\<close>, the
  terms of the current alternative (latest first) and whether a quantifier may follow:
  after an atom any quantifier may, after a quantifier only the \<open>?\<close> that makes it lazy,
  and after an assertion, a \<open>|\<close>, a \<open>(\<close> or at the start none (nothing to repeat).
  The stack holds the groups around it.
\<close>

datatype qstate = QNone | QAtom | QQuant

fun seqOf :: "re list \<Rightarrow> re" where
  "seqOf [] = Eps"
| "seqOf (r # rs) = Seq r (seqOf rs)"

fun altOf :: "re list \<Rightarrow> re" where
  "altOf [] = Eps"
| "altOf [r] = r"
| "altOf (r # s # rs) = Alt r (altOf (s # rs))"

definition closeGroup :: "re list \<Rightarrow> re list \<Rightarrow> re" where
  "closeGroup alts rcur = altOf (alts @ [seqOf (rev rcur)])"

fun parseToks :: "tok list \<Rightarrow> re list \<Rightarrow> re list \<Rightarrow> qstate \<Rightarrow> (re list \<times> re list) list \<Rightarrow> exn + re" where
  "parseToks [] alts rcur q stack =
     (case stack of [] \<Rightarrow> Inr (closeGroup alts rcur) | _ # _ \<Rightarrow> Inl SyntaxError)"
| "parseToks (TChar c # ts) alts rcur q stack = parseToks ts alts (Chr c # rcur) QAtom stack"
| "parseToks (TDot # ts) alts rcur q stack = parseToks ts alts (Dot # rcur) QAtom stack"
| "parseToks (TBol # ts) alts rcur q stack = parseToks ts alts (Bol # rcur) QNone stack"
| "parseToks (TEol # ts) alts rcur q stack = parseToks ts alts (Eol # rcur) QNone stack"
| "parseToks (TBar # ts) alts rcur q stack =
     parseToks ts (alts @ [seqOf (rev rcur)]) [] QNone stack"
| "parseToks (TOpen # ts) alts rcur q stack = parseToks ts [] [] QNone ((alts, rcur) # stack)"
| "parseToks (TClose # ts) alts rcur q stack =
     (case stack of
        [] \<Rightarrow> Inl SyntaxError
      | (palts, prcur) # rest \<Rightarrow> parseToks ts palts (closeGroup alts rcur # prcur) QAtom rest)"
| "parseToks (TStar # ts) alts rcur q stack =
     (case (q, rcur) of
        (QAtom, r # rs) \<Rightarrow> parseToks ts alts (Star r # rs) QQuant stack
      | _ \<Rightarrow> Inl SyntaxError)"
| "parseToks (TPlus # ts) alts rcur q stack =
     (case (q, rcur) of
        (QAtom, r # rs) \<Rightarrow> parseToks ts alts (Seq r (Star r) # rs) QQuant stack
      | _ \<Rightarrow> Inl SyntaxError)"
| "parseToks (TQuest # ts) alts rcur q stack =
     (case (q, rcur) of
        (QAtom, r # rs) \<Rightarrow> parseToks ts alts (Alt r Eps # rs) QQuant stack
      | (QQuant, _) \<Rightarrow> parseToks ts alts rcur QNone stack
      | _ \<Rightarrow> Inl SyntaxError)"

text \<open>\<open>new RegExp(src)\<close>.\<close>

definition regexCompile :: "string \<Rightarrow> exn + re" where
  "regexCompile src =
     (case lexRegex src of Inl e \<Rightarrow> Inl e | Inr ts \<Rightarrow> parseToks ts [] [] QNone [])"

text \<open>
  Matching.  A configuration is the rest of the input together with the flag "nothing
  has been consumed since the start of the input"; \<open>run r c\<close> lists the configurations
  in which a match of \<open>r\<close> that starts in \<open>c\<close> can end.  \<open>Dot\<close> matches every character but
  a line terminator, \<open>Bol\<close> only at the start of the input and \<open>Eol\<close> only at its end (no
  \<open>m\<close> flag).  An iteration of a starred expression has to consume input.
\<close>

function run :: "re \<Rightarrow> bool \<times> string \<Rightarrow> (bool \<times> string) list" where
  "run (Chr c) (b, s) =
     (case s of [] \<Rightarrow> [] | x # xs \<Rightarrow> if x = c then [(False, xs)] else [])"
| "run Dot (b, s) =
     (case s of [] \<Rightarrow> [] | x # xs \<Rightarrow> if x = LF \<or> x = CR then [] else [(False, xs)])"
| "run Bol (b, s) = (if b then [(b, s)] else [])"
| "run Eol (b, s) = (if s = [] then [(b, s)] else [])"
| "run Eps (b, s) = [(b, s)]"
| "run (Seq p q) (b, s) = remdups (concat (map (run q) (run p (b, s))))"
| "run (Alt p q) (b, s) = remdups (run p (b, s) @ run q (b, s))"
| "run (Star p) (b, s) =
     remdups ((b, s) # concat (map (run (Star p))
                                 (filter (\<lambda>c. length (snd c) < length s) (run p (b, s)))))"
  by pat_completeness auto
termination
  by (relation "measures [\<lambda>(r, c). size r, \<lambda>(r, c). length (snd c)]") auto

declare run.simps(8) [simp del]

text \<open>\<open>regex.test(s)\<close> for a regular expression without flags: a match may start at any
  position of the input, the first being its start.\<close>

fun testFrom :: "re \<Rightarrow> bool \<Rightarrow> string \<Rightarrow> bool" where
  "testFrom r b [] = (run r (b, []) \<noteq> [])"
| "testFrom r b (x # xs) = (if run r (b, x # xs) \<noteq> [] then True else testFrom r False xs)"

definition regexTest :: "re \<Rightarrow> string \<Rightarrow> bool" where
  "regexTest r s = testFrom r True s"

section \<open>The path matcher\<close>

text \<open>The three replacements that \<open>isIgnored\<close> applies to a pattern, in the order of the
  code: dots are escaped, \<open>*\<close> becomes \<open>.*\<close>, \<open>?\<close> becomes \<open>.\<close>.\<close>

definition regexPattern :: "string \<Rightarrow> string" where
  "regexPattern pattern =
     replaceAll (CHR ''?'') ''.''
       (replaceAll (CHR ''*'') ''.*''
          (replaceAll (CHR ''.'') [backslash, CHR ''.''] pattern))"

text \<open>The source text of the regular expression: the converted pattern as the whole
  path, before a slash, or after a slash at the end.\<close>

definition regexSource :: "string \<Rightarrow> string" where
  "regexSource pattern =
     ''^'' @ regexPattern pattern @ ''$|'' @ regexPattern pattern @ ''/|/''
       @ regexPattern pattern @ ''$''"

text \<open>The loop of \<open>isIgnored\<close> over the patterns, on the path relative to the working
  directory: the first pattern that matches answers, and a pattern that does not
  compile throws.\<close>

fun isIgnoredRel :: "string \<Rightarrow> string list \<Rightarrow> exn + bool" where
  "isIgnoredRel rel [] = Inr False"
| "isIgnoredRel rel (p # ps) =
     (case regexCompile (regexSource p) of
        Inl e \<Rightarrow> Inl e
      | Inr r \<Rightarrow> if regexTest r rel then Inr True else isIgnoredRel rel ps)"

section \<open>Paths and the file system\<close>

text \<open>
  The file system is a tree of regular files and directories.  A file holds its content,
  or nothing when it exists but cannot be read; a directory lists its entries by name,
  in the order in which \<open>fs.readdirSync\<close> returns them.  An absolute path is the list of
  its segments below the root, and POSIX path rules are modelled.
\<close>

datatype node = File "string option" | Dir "(string \<times> node) list"

record env =
  root :: node
  cwd :: "string list"

fun lookup :: "node \<Rightarrow> string list \<Rightarrow> node option" where
  "lookup n [] = Some n"
| "lookup n (x # xs) =
     (case n of
        File c \<Rightarrow> None
      | Dir es \<Rightarrow> (case map_of es x of None \<Rightarrow> None | Some m \<Rightarrow> lookup m xs))"

text \<open>Normalisation of the segments of a joined path: empty segments and \<open>.\<close> vanish,
  \<open>..\<close> removes the segment before it and stays at the root.\<close>

fun resolveSegs :: "string list \<Rightarrow> string list \<Rightarrow> string list" where
  "resolveSegs st [] = rev st"
| "resolveSegs st (x # xs) =
     (if x = [] \<or> x = ''.'' then resolveSegs st xs
      else if x = ''..'' then resolveSegs (tl st) xs
      else resolveSegs (x # st) xs)"

text \<open>\<open>path.join(dir, p)\<close> for an absolute, normalised \<open>dir\<close>; the result keeps a trailing
  slash of \<open>p\<close>, which \<open>endsWithSlash\<close> records.\<close>

definition pathJoin :: "string list \<Rightarrow> string \<Rightarrow> string list" where
  "pathJoin dir p = resolveSegs (rev dir) (splitChar (CHR ''/'') p)"

definition endsWithSlash :: "string \<Rightarrow> bool" where
  "endsWithSlash p = (case rev p of [] \<Rightarrow> False | c # cs \<Rightarrow> c = CHR ''/'')"

text \<open>\<open>path.relative(from, to)\<close> for two absolute, normalised paths.\<close>

fun stripCommon :: "string list \<Rightarrow> string list \<Rightarrow> string list \<times> string list" where
  "stripCommon (a # as) (b # bs) = (if a = b then stripCommon as bs else (a # as, b # bs))"
| "stripCommon as bs = (as, bs)"

definition relative :: "string list \<Rightarrow> string list \<Rightarrow> string" where
  "relative from to =
     (case stripCommon from to of
        (up, down) \<Rightarrow> joinWith ''/'' (map (\<lambda>s. ''..'') up @ down))"

text \<open>\<open>fs.statSync\<close>, \<open>fs.existsSync\<close>, \<open>fs.readFileSync(p, 'utf8')\<close> and \<open>fs.readdirSync\<close>.
  The flag says that the path was written with a trailing slash, which only a
  directory accepts.\<close>

definition statSync :: "env \<Rightarrow> string list \<Rightarrow> bool \<Rightarrow> exn + node" where
  "statSync e p slash =
     (case lookup (root e) p of
        None \<Rightarrow> Inl ENOENT
      | Some (File c) \<Rightarrow> if slash then Inl ENOTDIR else Inr (File c)
      | Some (Dir es) \<Rightarrow> Inr (Dir es))"

definition existsSync :: "env \<Rightarrow> string list \<Rightarrow> bool \<Rightarrow> bool" where
  "existsSync e p slash = (case statSync e p slash of Inl x \<Rightarrow> False | Inr n \<Rightarrow> True)"

definition readFileSync :: "env \<Rightarrow> string list \<Rightarrow> bool \<Rightarrow> exn + string" where
  "readFileSync e p slash =
     (case statSync e p slash of
        Inl x \<Rightarrow> Inl x
      | Inr (Dir es) \<Rightarrow> Inl EISDIR
      | Inr (File None) \<Rightarrow> Inl EACCES
      | Inr (File (Some content)) \<Rightarrow> Inr content)"

definition readdirSync :: "env \<Rightarrow> string list \<Rightarrow> exn + (string \<times> node) list" where
  "readdirSync e p =
     (case lookup (root e) p of
        None \<Rightarrow> Inl ENOENT
      | Some (File c) \<Rightarrow> Inl ENOTDIR
      | Some (Dir es) \<Rightarrow> Inr es)"

section \<open>Console output\<close>

text \<open>One constructor per \<open>console.log\<close>, \<open>console.warn\<close> and \<open>console.error\<close> message of
  the code, with the values that the message prints; \<open>LogUsage\<close> stands for the two lines
  of the usage text, and a path is printed as its segments.\<close>

datatype event =
    LogUsage
  | LogSearchingFor string string
  | ErrCodeownersNotFound "string list"
  | LogParsed nat "string list"
  | LogSearchingInPath string
  | WarnPathDoesNotExist "string list"
  | WarnCouldNotRead "string list" exn
  | ErrSearching string exn
  | LogFound nat string string
  | LogFilesFound nat
  | LogFile string
  | LogCommaSeparated string
  | LogNoFilesFound

section \<open>parseCodeowners\<close>

record entry =
  path :: string
  owners :: "string list"

text \<open>The body of the loop over the lines: \<open>None\<close> is \<open>continue\<close>.\<close>

definition parseLine :: "string \<Rightarrow> entry option" where
  "parseLine line =
     (let trimmedLine = trim line in
      if startsWith trimmedLine ''#'' \<or> trimmedLine = [] then None
      else (case splitWhitespace trimmedLine of
              ownerPath # p # ps \<Rightarrow>
                Some \<lparr>path = ownerPath,
                      owners = filter (\<lambda>team. startsWith team ''@'') (ownerPath # p # ps)\<rparr>
            | _ \<Rightarrow> None))"

definition parseLines :: "string \<Rightarrow> entry list" where
  "parseLines content = List.map_filter parseLine (splitChar LF content)"

definition parseCodeowners :: "env \<Rightarrow> string list \<Rightarrow> event list \<times> (exn + entry list)" where
  "parseCodeowners e filePath =
     (if \<not> existsSync e filePath False then ([ErrCodeownersNotFound filePath], Inr [])
      else (case readFileSync e filePath False of
              Inl x \<Rightarrow> ([], Inl x)
            | Inr content \<Rightarrow>
                ([LogParsed (length (parseLines content)) filePath], Inr (parseLines content))))"

section \<open>parseGitignore and isIgnored\<close>

definition parseGitignore :: "env \<Rightarrow> exn + string list" where
  "parseGitignore e =
     (case readFileSync e (pathJoin (cwd e) ''.gitignore'') False of
        Inl x \<Rightarrow> Inl x
      | Inr content \<Rightarrow>
          Inr (foldl setAdd []
                 (filter (\<lambda>line. line \<noteq> [] \<and> \<not> startsWith line ''#'')
                    (map trim (splitChar LF content)))))"

definition isIgnored :: "string list \<Rightarrow> string list \<Rightarrow> string list \<Rightarrow> exn + bool" where
  "isIgnored wd filePath patterns = isIgnoredRel (relative wd filePath) patterns"

section \<open>getAllFiles\<close>

text \<open>
  The \<open>forEach\<close> over the entries of a directory.  An ignored entry is skipped before it
  is looked at; a directory is walked with the same patterns and the same accumulator;
  a file is pushed.  The walk goes down the tree itself: the node of an entry is what
  \<open>fs.statSync\<close> finds at \<open>path.join(dirPath, file)\<close>.
\<close>

fun walkEntries ::
  "string list \<Rightarrow> string list \<Rightarrow> string list \<Rightarrow> (string \<times> node) list \<Rightarrow> string list list
     \<Rightarrow> exn + string list list" where
  "walkEntries wd patterns dirPath [] arrayOfFiles = Inr arrayOfFiles"
| "walkEntries wd patterns dirPath ((file, n) # rest) arrayOfFiles =
     (case isIgnored wd (dirPath @ [file]) patterns of
        Inl x \<Rightarrow> Inl x
      | Inr True \<Rightarrow> walkEntries wd patterns dirPath rest arrayOfFiles
      | Inr False \<Rightarrow>
          (case n of
             Dir es \<Rightarrow>
               (case walkEntries wd patterns (dirPath @ [file]) es arrayOfFiles of
                  Inl x \<Rightarrow> Inl x
                | Inr found \<Rightarrow> walkEntries wd patterns dirPath rest found)
           | File c \<Rightarrow> walkEntries wd patterns dirPath rest (arrayOfFiles @ [dirPath @ [file]])))"

text \<open>The call \<open>getAllFiles(dirPath)\<close> with the default arguments: the ignore file is read
  first, then the directory is listed.\<close>

definition getAllFiles :: "env \<Rightarrow> string list \<Rightarrow> exn + string list list" where
  "getAllFiles e dirPath =
     (case parseGitignore e of
        Inl x \<Rightarrow> Inl x
      | Inr ignorePatterns \<Rightarrow>
          (case readdirSync e dirPath of
             Inl x \<Rightarrow> Inl x
           | Inr files \<Rightarrow> walkEntries (cwd e) ignorePatterns dirPath files []))"

section \<open>searchInFiles\<close>

definition contentMatches :: "string \<Rightarrow> string \<Rightarrow> bool" where
  "contentMatches content searchTerm =
     includesStr (toLowerCase content) (toLowerCase searchTerm)"

text \<open>The loop over the files of a directory: a file that cannot be read is warned about
  and skipped.\<close>

fun scanFiles :: "env \<Rightarrow> string \<Rightarrow> string list list \<Rightarrow> event list \<times> string list" where
  "scanFiles e searchTerm [] = ([], [])"
| "scanFiles e searchTerm (file # files) =
     (case scanFiles e searchTerm files of
        (log, matchingFiles) \<Rightarrow>
          (case readFileSync e file False of
             Inl x \<Rightarrow> (WarnCouldNotRead file x # log, matchingFiles)
           | Inr content \<Rightarrow>
               if contentMatches content searchTerm
               then (log, relative (cwd e) file # matchingFiles)
               else (log, matchingFiles)))"

text \<open>\<open>searchInFiles\<close> returns the console output and the matching files.  The outer
  \<open>catch\<close> logs what \<open>fs.statSync\<close> or \<open>getAllFiles\<close> throws and returns the files found so
  far, which are none.\<close>

definition searchInFiles :: "env \<Rightarrow> string \<Rightarrow> string \<Rightarrow> event list \<times> string list" where
  "searchInFiles e basePath searchTerm =
     (let fullPath = pathJoin (cwd e) (stripLeadingSlash basePath);
          slash = endsWithSlash (stripLeadingSlash basePath)
      in if \<not> existsSync e fullPath slash then ([WarnPathDoesNotExist fullPath], [])
         else (case statSync e fullPath slash of
                 Inl x \<Rightarrow> ([ErrSearching basePath x], [])
               | Inr (File c) \<Rightarrow>
                   (case readFileSync e fullPath slash of
                      Inl x \<Rightarrow> ([WarnCouldNotRead fullPath x], [])
                    | Inr content \<Rightarrow>
                        if contentMatches content searchTerm
                        then ([], [relative (cwd e) fullPath])
                        else ([], []))
               | Inr (Dir es) \<Rightarrow>
                   (case getAllFiles e fullPath of
                      Inl x \<Rightarrow> ([ErrSearching basePath x], [])
                    | Inr files \<Rightarrow> scanFiles e searchTerm files)))"

section \<open>findCodeownersPaths and the main program\<close>

definition ownedBy :: "string \<Rightarrow> entry \<Rightarrow> bool" where
  "ownedBy team entry = (toLowerCase team \<in> set (map toLowerCase (owners entry)))"

definition normalizedPath :: "entry \<Rightarrow> string" where
  "normalizedPath entry = stripLeadingSlash (replaceAll (CHR ''*'') [] (path entry))"

text \<open>The loop over the entries, with the set of matching files as accumulator.\<close>

fun searchEntries ::
  "env \<Rightarrow> string \<Rightarrow> string \<Rightarrow> entry list \<Rightarrow> string list \<Rightarrow> event list \<times> string list" where
  "searchEntries e searchTerm team [] matchingFiles = ([], matchingFiles)"
| "searchEntries e searchTerm team (entry # rest) matchingFiles =
     (if ownedBy team entry then
        (case searchInFiles e (normalizedPath entry) searchTerm of
           (log1, filesWithTerm) \<Rightarrow>
             (case searchEntries e searchTerm team rest (foldl setAdd matchingFiles filesWithTerm) of
                (log2, result) \<Rightarrow> (LogSearchingInPath (path entry) # log1 @ log2, result)))
      else searchEntries e searchTerm team rest matchingFiles)"

definition CODEOWNERS_FILE :: "env \<Rightarrow> string list" where
  "CODEOWNERS_FILE e = pathJoin (cwd e) ''.github/CODEOWNERS''"

definition findCodeownersPaths :: "env \<Rightarrow> string \<Rightarrow> string \<Rightarrow> event list \<times> (exn + string list)" where
  "findCodeownersPaths e searchTerm team =
     (case parseCodeowners e (CODEOWNERS_FILE e) of
        (log, Inl x) \<Rightarrow> (log, Inl x)
      | (log, Inr allEntries) \<Rightarrow>
          (case searchEntries e searchTerm team allEntries [] of
             (log2, matchingFiles) \<Rightarrow>
               (log @ log2 @ [LogFound (length matchingFiles) searchTerm team],
                Inr matchingFiles)))"

text \<open>
  How a run ends: the process exits with a status, by \<open>process.exit\<close> or at the end of
  the script, or an exception that nothing catches ends it.  Node gives a process that
  dies of an uncaught exception the exit status 1.
\<close>

datatype outcome = Exit nat "event list" | Uncaught exn "event list"

fun exitStatus :: "outcome \<Rightarrow> nat" where
  "exitStatus (Exit n log) = n"
| "exitStatus (Uncaught x log) = 1"

fun console :: "outcome \<Rightarrow> event list" where
  "console (Exit n log) = log"
| "console (Uncaught x log) = log"

definition report :: "string list \<Rightarrow> event list" where
  "report results =
     (if length results > 0
      then LogFilesFound (length results) # map LogFile results
             @ [LogCommaSeparated (joinWith '', '' results)]
      else [LogNoFilesFound])"

definition main :: "env \<Rightarrow> string list \<Rightarrow> outcome" where
  "main e args =
     (case args of
        searchTerm # team # others \<Rightarrow>
          (case findCodeownersPaths e searchTerm team of
             (log, Inl x) \<Rightarrow> Uncaught x (LogSearchingFor searchTerm team # log)
           | (log, Inr results) \<Rightarrow>
               Exit 0 (LogSearchingFor searchTerm team # log @ report results))
      | _ \<Rightarrow> Exit 1 [LogUsage])"

section \<open>Notions used in the statements\<close>

text \<open>What \<open>searchInFiles\<close> looks at for a base path: the absolute path it builds, and the
  result of its \<open>fs.statSync\<close> call.\<close>

definition targetPath :: "env \<Rightarrow> string \<Rightarrow> string list" where
  "targetPath e basePath = pathJoin (cwd e) (stripLeadingSlash basePath)"

definition targetNode :: "env \<Rightarrow> string \<Rightarrow> exn + node" where
  "targetNode e basePath =
     statSync e (pathJoin (cwd e) (stripLeadingSlash basePath))
       (endsWithSlash (stripLeadingSlash basePath))"

text \<open>The ownership file exists, and reading it fails.\<close>

definition codeownersUnreadable :: "env \<Rightarrow> bool" where
  "codeownersUnreadable e =
     (existsSync e (CODEOWNERS_FILE e) False
      \<and> (case readFileSync e (CODEOWNERS_FILE e) False of Inl x \<Rightarrow> True | Inr c \<Rightarrow> False))"

text \<open>A file can be read, and its lower-cased content contains the lower-cased search
  term as a substring.\<close>

definition readableMatch :: "env \<Rightarrow> string \<Rightarrow> string list \<Rightarrow> bool" where
  "readableMatch e searchTerm f =
     (case readFileSync e f False of
        Inl x \<Rightarrow> False
      | Inr content \<Rightarrow> sublist (toLowerCase searchTerm) (toLowerCase content))"

text \<open>What the three replacements of \<open>isIgnored\<close> make of one character of a pattern.\<close>

definition convertChar :: "char \<Rightarrow> string" where
  "convertChar c =
     (if c = CHR ''.'' then [backslash, CHR ''.'']
      else if c = CHR ''*'' then ''.*''
      else if c = CHR ''?'' then ''.''
      else [c])"

text \<open>
  The characters, other than the dot, that have a meaning of their own in the source of
  a regular expression.  A plain pattern has none of them: it is made of dots and of
  characters that stand for themselves.
\<close>

definition regexSpecial :: string where
  "regexSpecial = [backslash, CHR ''^'', CHR ''$'', CHR ''*'', CHR ''+'', CHR ''?'',
                   CHR ''('', CHR '')'', CHR ''['', CHR ''{'', CHR ''|'']"

definition plainPattern :: "string \<Rightarrow> bool" where
  "plainPattern pattern = list_all (\<lambda>c. c \<notin> set regexSpecial) pattern"

text \<open>The relative path is the pattern, or has the pattern followed by a slash somewhere
  in it, or ends with a slash followed by the pattern.\<close>

definition literalMatch :: "string \<Rightarrow> string \<Rightarrow> bool" where
  "literalMatch pattern rel =
     (rel = pattern \<or> sublist (pattern @ ''/'') rel \<or> suffix (''/'' @ pattern) rel)"

text \<open>The regular expression that a plain pattern compiles to.\<close>

definition literalRegex :: "string \<Rightarrow> re" where
  "literalRegex p =
     Alt (seqOf (Bol # map Chr p @ [Eol]))
       (Alt (seqOf (map Chr p @ [Chr (CHR ''/'')]))
          (seqOf (Chr (CHR ''/'') # map Chr p @ [Eol])))"

fun consToks :: "tok list \<Rightarrow> exn + tok list \<Rightarrow> exn + tok list" where
  "consToks ts (Inl e) = Inl e"
| "consToks ts (Inr us) = Inr (ts @ us)"

section \<open>Sample repositories\<close>

text \<open>A repository without an ignore file: \<open>src/\<close> and \<open>a.txt\<close> are owned by \<open>@t\<close>.\<close>

definition repoWithoutGitignore :: env where
  "repoWithoutGitignore =
     \<lparr>root = Dir [(''repo'', Dir
        [(''.github'', Dir [(''CODEOWNERS'', File (Some (''src/ @t'' @ [LF] @ ''a.txt @t'')))]),
         (''src'', Dir [(''x.js'', File (Some ''TODO''))]),
         (''a.txt'', File (Some ''TODO''))])],
      cwd = [''repo'']\<rparr>"

text \<open>A repository whose ownership file exists and cannot be read.\<close>

definition repoUnreadableCodeowners :: env where
  "repoUnreadableCodeowners =
     \<lparr>root = Dir [(''repo'', Dir
        [(''.github'', Dir [(''CODEOWNERS'', File None)]),
         (''.gitignore'', File (Some ''node_modules'')),
         (''a.txt'', File (Some ''TODO''))])],
      cwd = [''repo'']\<rparr>"

text \<open>A repository with two ownership entries that overlap on \<open>src/a.js\<close>, an ignore file
  and an ignored log file.\<close>

definition repoSample :: env where
  "repoSample =
     \<lparr>root = Dir [(''repo'', Dir
        [(''.github'', Dir [(''CODEOWNERS'',
            File (Some (''src/ @team-a'' @ [LF] @ ''/src/a.js @Team-A @x'')))]),
         (''.gitignore'', File (Some (''*.test.js'' @ [LF] @ ''*.log''))),
         (''src'', Dir [(''a.js'', File (Some ''has TODO'')),
                        (''a.test.js'', File (Some ''TODO'')),
                        (''b.js'', File (Some ''nothing''))]),
         (''debug.log'', File (Some ''a todo item''))])],
      cwd = [''repo'']\<rparr>"

text \<open>The end-to-end scenario of the specification: \<open>src/ @team-a\<close> in the ownership
  file, \<open>*.test.js\<close> in the ignore file, and \<open>TODO\<close> in \<open>src/a.js\<close> and \<open>src/a.test.js\<close>.\<close>

definition repoScenario :: env where
  "repoScenario =
     \<lparr>root = Dir [(''repo'', Dir
        [(''.github'', Dir [(''CODEOWNERS'', File (Some ''src/ @team-a''))]),
         (''.gitignore'', File (Some ''*.test.js'')),
         (''src'', Dir [(''a.js'', File (Some ''TODO'')),
                        (''a.test.js'', File (Some ''TODO''))])])],
      cwd = [''repo'']\<rparr>"

section \<open>Facts about strings and paths\<close>

lemma startsWith_prefix: "startsWith s p = prefix p s"
  unfolding startsWith_def
  by (metis append_eq_conv_conj prefix_def take_is_prefix)

lemma includesStr_sublist: "includesStr hay needle = sublist needle hay"
  by (induction hay) (auto simp: startsWith_prefix sublist_Cons_right)

lemma contentMatches_sublist:
  "contentMatches content searchTerm = sublist (toLowerCase searchTerm) (toLowerCase content)"
  by (simp add: contentMatches_def includesStr_sublist)

lemma replaceAll_Nil: "replaceAll c rep [] = []"
  by (simp add: replaceAll_def)

lemma replaceAll_Cons:
  "replaceAll c rep (x # xs) = (if x = c then rep else [x]) @ replaceAll c rep xs"
  by (simp add: replaceAll_def)

lemma replaceAll_append:
  "replaceAll c rep (xs @ ys) = replaceAll c rep xs @ replaceAll c rep ys"
  by (simp add: replaceAll_def)

lemma stripCommon_append: "stripCommon wd (wd @ xs) = ([], xs)"
  by (induction wd) simp_all

lemma relative_below: "relative wd (wd @ xs) = joinWith ''/'' xs"
  by (simp add: relative_def stripCommon_append)

lemma set_setAdd: "set (setAdd xs x) = insert x (set xs)"
  by (auto simp: setAdd_def)

lemma distinct_setAdd: "distinct xs \<Longrightarrow> distinct (setAdd xs x)"
  by (auto simp: setAdd_def)

lemma set_foldl_setAdd: "set (foldl setAdd acc xs) = set acc \<union> set xs"
  by (induction xs arbitrary: acc) (auto simp: set_setAdd)

lemma distinct_foldl_setAdd: "distinct acc \<Longrightarrow> distinct (foldl setAdd acc xs)"
  by (induction xs arbitrary: acc) (auto simp: distinct_setAdd)

lemma count_list_distinct: "distinct xs \<Longrightarrow> x \<in> set xs \<Longrightarrow> count_list xs x = 1"
  by (induction xs) auto

lemma map_filter_append:
  "List.map_filter f (xs @ ys) = List.map_filter f xs @ List.map_filter f ys"
  by (simp add: List.map_filter_def)

section \<open>The scenario of the specification\<close>

text \<open>The model returns exactly \<open>src/a.js\<close> for the end-to-end scenario, and the exit
  status is 0.\<close>

lemma scenario_result:
  "main repoScenario [''TODO'', ''@team-a'']
     = Exit 0 [LogSearchingFor ''TODO'' ''@team-a'',
               LogParsed 1 [''repo'', ''.github'', ''CODEOWNERS''],
               LogSearchingInPath ''src/'',
               LogFound 1 ''TODO'' ''@team-a'',
               LogFilesFound 1, LogFile ''src/a.js'', LogCommaSeparated ''src/a.js'']"
  by code_simp

section \<open>A failing read of the ignore file\<close>

lemma searchInFiles_directory_failure:
  assumes "parseGitignore e = Inl x" and "targetNode e basePath = Inr (Dir es)"
  shows "searchInFiles e basePath searchTerm = ([ErrSearching basePath x], [])"
  using assms
  by (simp add: searchInFiles_def targetNode_def existsSync_def getAllFiles_def Let_def)

text \<open>
  C1, as the code has it.  When reading the ignore file fails with an error \<open>x\<close> and an
  entry owned by the requested team names a directory, \<open>searchInFiles\<close> catches the
  error: it logs it and returns no file.  The loop over the entries then goes on with
  the remaining entries, and the set of matching files is as it was before the entry.
\<close>

theorem gitignore_failure_contained:
  assumes "parseGitignore e = Inl x"
    and "ownedBy team entry"
    and "targetNode e (normalizedPath entry) = Inr (Dir es)"
  shows "searchInFiles e (normalizedPath entry) searchTerm
           = ([ErrSearching (normalizedPath entry) x], [])
       \<and> searchEntries e searchTerm team (entry # rest) found
           = (case searchEntries e searchTerm team rest found of
                (log, result) \<Rightarrow>
                  (LogSearchingInPath (path entry) # ErrSearching (normalizedPath entry) x # log,
                   result))"
  using assms
  by (simp add: searchInFiles_directory_failure split: prod.splits)

theorem gitignore_failure_contained_witness:
  "parseGitignore repoWithoutGitignore = Inl ENOENT
   \<and> ownedBy ''@t'' \<lparr>path = ''src/'', owners = [''@t'']\<rparr>
   \<and> targetNode repoWithoutGitignore (normalizedPath \<lparr>path = ''src/'', owners = [''@t'']\<rparr>)
       = Inr (Dir [(''x.js'', File (Some ''TODO''))])
   \<and> searchInFiles repoWithoutGitignore (normalizedPath \<lparr>path = ''src/'', owners = [''@t'']\<rparr>)
        ''TODO''
       = ([ErrSearching (normalizedPath \<lparr>path = ''src/'', owners = [''@t'']\<rparr>) ENOENT], [])"
proof -
  have h1: "parseGitignore repoWithoutGitignore = Inl ENOENT"
    by code_simp
  have h2: "ownedBy ''@t'' \<lparr>path = ''src/'', owners = [''@t'']\<rparr>"
    by code_simp
  have h3: "targetNode repoWithoutGitignore (normalizedPath \<lparr>path = ''src/'', owners = [''@t'']\<rparr>)
              = Inr (Dir [(''x.js'', File (Some ''TODO''))])"
    by code_simp
  from gitignore_failure_contained [OF h1 h2 h3] h1 h2 h3 show ?thesis
    by blast
qed

text \<open>
  The run of the program on the repository without an ignore file: the failed read is
  logged for \<open>src/\<close>, the search goes on to \<open>a.txt\<close>, reports it, and the exit status is 0.
\<close>

theorem gitignore_failure_not_fatal:
  "parseGitignore repoWithoutGitignore = Inl ENOENT
   \<and> targetNode repoWithoutGitignore ''src/'' = Inr (Dir [(''x.js'', File (Some ''TODO''))])
   \<and> main repoWithoutGitignore [''TODO'', ''@t'']
       = Exit 0 [LogSearchingFor ''TODO'' ''@t'',
                 LogParsed 2 [''repo'', ''.github'', ''CODEOWNERS''],
                 LogSearchingInPath ''src/'', ErrSearching ''src/'' ENOENT,
                 LogSearchingInPath ''a.txt'',
                 LogFound 1 ''TODO'' ''@t'',
                 LogFilesFound 1, LogFile ''a.txt'', LogCommaSeparated ''a.txt'']"
  by code_simp

section \<open>The exit status\<close>

text \<open>
  What the code does.  With fewer than two arguments the program prints the usage text
  and exits with status 1.  With two or more arguments the exit status is 0, unless the
  ownership file exists and cannot be read.
\<close>

lemma exit_status:
  "(length args < 2 \<longrightarrow> main e args = Exit 1 [LogUsage])
   \<and> (2 \<le> length args \<longrightarrow>
        exitStatus (main e args) = (if codeownersUnreadable e then 1 else 0))"
  by (cases args rule: list.exhaust [case_product list.exhaust])
     (auto simp: main_def findCodeownersPaths_def parseCodeowners_def codeownersUnreadable_def
        split: list.splits sum.splits prod.splits)

text \<open>
  The sibling path of \<open>parseCodeowners\<close>: an ownership file that does not exist is
  logged and read as no entries, and the run ends with status 0 and the report that no
  file was found.
\<close>

lemma missing_codeowners_is_logged:
  assumes "\<not> existsSync e (CODEOWNERS_FILE e) False"
  shows "main e (searchTerm # team # others)
           = Exit 0 [LogSearchingFor searchTerm team,
                     ErrCodeownersNotFound (CODEOWNERS_FILE e),
                     LogFound 0 searchTerm team,
                     LogNoFilesFound]"
  using assms
  by (simp add: main_def findCodeownersPaths_def parseCodeowners_def report_def)

text \<open>
  C6.  The claim fails on the code for an ownership file that exists and cannot be
  read: with two arguments, \<open>fs.readFileSync\<close> in \<open>parseCodeowners\<close> throws, nothing
  catches the error, no report is printed, and the exit status is 1 and not 0.
\<close>

theorem unreadable_codeowners_exit_status:
  "length [''TODO'', ''@t''] = 2
   \<and> main repoUnreadableCodeowners [''TODO'', ''@t'']
       = Uncaught EACCES [LogSearchingFor ''TODO'' ''@t'']
   \<and> exitStatus (main repoUnreadableCodeowners [''TODO'', ''@t'']) = 1"
  by code_simp

section \<open>The owners of an ownership line\<close>

text \<open>When the path token does not start with the owner sigil, the owners are the tokens
  after the first that start with it, in their order.\<close>

lemma parseLine_owners_after_path:
  assumes "\<not> startsWith (trim line) ''#''"
    and "splitWhitespace (trim line) = p0 # p1 # ps"
    and "\<not> startsWith p0 ''@''"
  shows "parseLine line
           = Some \<lparr>path = p0, owners = filter (\<lambda>team. startsWith team ''@'') (p1 # ps)\<rparr>"
proof -
  have "trim line \<noteq> []"
  proof
    assume "trim line = []"
    then have "splitWhitespace (trim line) = [[]]" by (simp add: splitWhitespace.simps)
    with assms(2) show False by simp
  qed
  with assms show ?thesis by (simp add: parseLine_def Let_def)
qed

text \<open>
  C3.  The owner filter runs over all tokens of the line, the first one included: on the
  line \<open>@types/ @team-a\<close>, whose path token starts with the owner sigil, the path is
  listed among the owners.
\<close>

theorem parseLine_sigil_path_among_owners:
  "parseLine ''@types/ @team-a''
     = Some \<lparr>path = ''@types/'', owners = [''@types/'', ''@team-a'']\<rparr>"
  by code_simp

section \<open>The conversion of a pattern\<close>

lemma regexPattern_Cons: "regexPattern (c # cs) = convertChar c @ regexPattern cs"
  by (simp add: regexPattern_def replaceAll_Cons replaceAll_append replaceAll_Nil
        convertChar_def backslash_def)

text \<open>
  C4, as the code has it.  The conversion works character by character: a dot is
  escaped, \<open>*\<close> becomes \<open>.*\<close>, \<open>?\<close> becomes \<open>.\<close>, and every other character, the other
  metacharacters of regular expressions included, is copied as it is.
\<close>

theorem regexPattern_charwise: "regexPattern pattern = concat (map convertChar pattern)"
proof (induction pattern)
  case Nil
  show ?case by (simp add: regexPattern_def replaceAll_Nil)
next
  case (Cons c cs)
  then show ?case by (simp add: regexPattern_Cons)
qed

text \<open>The pattern \<open>a+b\<close> is passed on as it is, and \<open>+\<close> keeps its meaning: the path \<open>aab\<close>,
  which has no \<open>+\<close>, is ignored, and the path \<open>a+b\<close> is not.  The pattern \<open>a(b\<close> does not
  compile: the path matcher throws.\<close>

theorem plus_is_not_escaped:
  "regexPattern ''a+b'' = ''a+b''
   \<and> isIgnored [''repo''] [''repo'', ''aab''] [''a+b''] = Inr True
   \<and> isIgnored [''repo''] [''repo'', ''a+b''] [''a+b''] = Inr False
   \<and> isIgnored [''repo''] [''repo'', ''a(b''] [''a(b''] = Inl SyntaxError"
  by code_simp

section \<open>Plain patterns\<close>

lemma consTok_consToks: "consTok t (consToks ts r) = consToks (t # ts) r"
  by (cases r) simp_all

lemma lexRegex_plain_char:
  assumes "c \<notin> set regexSpecial"
  shows "lexRegex (convertChar c @ rest) = consTok (TChar c) (lexRegex rest)"
proof (cases "c = CHR ''.''")
  case True
  then show ?thesis
    by (simp add: convertChar_def syntaxChars_def backslash_def)
next
  case False
  with assms show ?thesis
    by (simp add: convertChar_def regexSpecial_def backslash_def)
qed

lemma lexRegex_plain:
  "plainPattern p \<Longrightarrow> lexRegex (regexPattern p @ rest) = consToks (map TChar p) (lexRegex rest)"
proof (induction p)
  case Nil
  show ?case by (cases "lexRegex rest") (simp_all add: regexPattern_def replaceAll_Nil)
next
  case (Cons c p)
  then have c: "c \<notin> set regexSpecial" and p: "plainPattern p"
    by (simp_all add: plainPattern_def)
  show ?case
    using Cons.IH [OF p] lexRegex_plain_char [OF c]
    by (simp add: regexPattern_Cons consTok_consToks)
qed

lemma lexRegex_regexSource:
  assumes "plainPattern p"
  shows "lexRegex (regexSource p)
     = Inr (TBol # map TChar p @ TEol # TBar # map TChar p @ TChar (CHR ''/'') # TBar
              # TChar (CHR ''/'') # map TChar p @ [TEol])"
proof -
  have 3: "lexRegex (regexPattern p @ ''$'') = Inr (map TChar p @ [TEol])"
    using lexRegex_plain [OF assms, of "''$''"] by (simp add: backslash_def)
  have 2: "lexRegex (regexPattern p @ ''/|/'' @ regexPattern p @ ''$'')
     = Inr (map TChar p @ TChar (CHR ''/'') # TBar # TChar (CHR ''/'') # map TChar p @ [TEol])"
    using lexRegex_plain [OF assms, of "''/|/'' @ regexPattern p @ ''$''"] 3
    by (simp add: backslash_def)
  have 1: "lexRegex (regexPattern p @ ''$|'' @ regexPattern p @ ''/|/'' @ regexPattern p @ ''$'')
     = Inr (map TChar p @ TEol # TBar # map TChar p @ TChar (CHR ''/'') # TBar
              # TChar (CHR ''/'') # map TChar p @ [TEol])"
    using lexRegex_plain [OF assms, of "''$|'' @ regexPattern p @ ''/|/'' @ regexPattern p @ ''$''"] 2
    by (simp add: backslash_def)
  show ?thesis
    using 1 by (simp add: regexSource_def backslash_def)
qed

lemma parseToks_chars:
  "parseToks (map TChar w @ t # ts) alts rcur q st
     = parseToks (t # ts) alts (rev (map Chr w) @ rcur) (if w = [] then q else QAtom) st"
  by (induction w arbitrary: rcur q) simp_all

lemma regexCompile_plain:
  assumes "plainPattern p"
  shows "regexCompile (regexSource p) = Inr (literalRegex p)"
  by (simp add: regexCompile_def lexRegex_regexSource [OF assms] parseToks_chars
        closeGroup_def literalRegex_def rev_map)

lemma set_run_Seq: "set (run (Seq p q) c) = (\<Union>d \<in> set (run p c). set (run q d))"
  by (cases c) simp

lemma set_run_Alt: "set (run (Alt p q) c) = set (run p c) \<union> set (run q c)"
  by (cases c) simp

lemma set_run_chars:
  "set (run (seqOf (map Chr w @ rs)) (b, s))
     = (if prefix w s then set (run (seqOf rs) (if w = [] then b else False, drop (length w) s))
        else {})"
proof (induction w arbitrary: b s)
  case Nil
  show ?case by simp
next
  case (Cons x w)
  show ?case
  proof (cases s)
    case Nil
    then show ?thesis by (simp add: set_run_Seq)
  next
    case (Cons y ys)
    show ?thesis
      using Cons.IH [of False ys] Cons
      by (simp add: set_run_Seq)
  qed
qed

lemma set_run_Eol_only:
  "set (run (seqOf [Eol]) (b, s)) = (if s = [] then {(b, [])} else {})"
  by (simp add: set_run_Seq)

lemma prefix_drop_Nil: "prefix p s \<and> drop (length p) s = [] \<longleftrightarrow> s = p"
  by (auto simp: prefix_def)

lemma accepts_chars_Eol:
  "set (run (seqOf (map Chr p @ [Eol])) (b, s)) \<noteq> {} \<longleftrightarrow> s = p"
proof -
  have "set (run (seqOf (map Chr p @ [Eol])) (b, s)) \<noteq> {}
          \<longleftrightarrow> prefix p s \<and> drop (length p) s = []"
    by (simp add: set_run_chars set_run_Eol_only del: seqOf.simps)
  then show ?thesis by (simp only: prefix_drop_Nil)
qed

lemma accepts_whole:
  "run (seqOf (Bol # map Chr p @ [Eol])) (b, s) \<noteq> [] \<longleftrightarrow> b \<and> s = p"
proof -
  have "set (run (seqOf (Bol # map Chr p @ [Eol])) (b, s))
          = (if b then set (run (seqOf (map Chr p @ [Eol])) (b, s)) else {})"
    by (simp add: set_run_Seq)
  then have "set (run (seqOf (Bol # map Chr p @ [Eol])) (b, s)) \<noteq> {} \<longleftrightarrow> b \<and> s = p"
    using accepts_chars_Eol [of p b s] by (cases b) simp_all
  then show ?thesis by (simp only: set_empty)
qed

lemma accepts_before_slash:
  "run (seqOf (map Chr p @ [Chr (CHR ''/'')])) (b, s) \<noteq> [] \<longleftrightarrow> prefix (p @ ''/'') s"
proof -
  have "set (run (seqOf (map Chr (p @ ''/'') @ [])) (b, s)) \<noteq> {} \<longleftrightarrow> prefix (p @ ''/'') s"
    by (simp only: set_run_chars) simp
  then show ?thesis by (simp only: set_empty) simp
qed

lemma accepts_after_slash:
  "run (seqOf (Chr (CHR ''/'') # map Chr p @ [Eol])) (b, s) \<noteq> [] \<longleftrightarrow> s = ''/'' @ p"
proof -
  have "set (run (seqOf (map Chr (''/'' @ p) @ [Eol])) (b, s)) \<noteq> {} \<longleftrightarrow> s = ''/'' @ p"
    by (rule accepts_chars_Eol)
  then show ?thesis by (simp only: set_empty) simp
qed

lemma accepts_literalRegex:
  "run (literalRegex p) (b, s) \<noteq> []
     \<longleftrightarrow> (b \<and> s = p) \<or> prefix (p @ ''/'') s \<or> s = ''/'' @ p"
proof -
  have "run (literalRegex p) (b, s) \<noteq> [] \<longleftrightarrow> set (run (literalRegex p) (b, s)) \<noteq> {}"
    by (simp only: set_empty)
  also have "\<dots> \<longleftrightarrow> run (seqOf (Bol # map Chr p @ [Eol])) (b, s) \<noteq> []
      \<or> run (seqOf (map Chr p @ [Chr (CHR ''/'')])) (b, s) \<noteq> []
      \<or> run (seqOf (Chr (CHR ''/'') # map Chr p @ [Eol])) (b, s) \<noteq> []"
    unfolding literalRegex_def set_run_Alt by (simp only: Un_empty set_empty de_Morgan_conj)
  finally show ?thesis
    by (simp only: accepts_whole accepts_before_slash accepts_after_slash)
qed

text \<open>A match may start at the start of the input or after any non-empty part of it.\<close>

lemma testFrom_iff:
  "testFrom r b s \<longleftrightarrow>
     run r (b, s) \<noteq> [] \<or> (\<exists>ys zs. s = ys @ zs \<and> ys \<noteq> [] \<and> run r (False, zs) \<noteq> [])"
proof (induction s arbitrary: b)
  case Nil
  show ?case by simp
next
  case (Cons x xs)
  have "(\<exists>ys zs. x # xs = ys @ zs \<and> ys \<noteq> [] \<and> run r (False, zs) \<noteq> [])
          \<longleftrightarrow> run r (False, xs) \<noteq> []
              \<or> (\<exists>ys zs. xs = ys @ zs \<and> ys \<noteq> [] \<and> run r (False, zs) \<noteq> [])"
    (is "?L \<longleftrightarrow> ?R")
  proof
    assume ?L
    then obtain ys zs where h: "x # xs = ys @ zs" "ys \<noteq> []" "run r (False, zs) \<noteq> []" by blast
    then obtain ys' where ys: "ys = x # ys'" and xs: "xs = ys' @ zs"
      by (cases ys) auto
    show ?R
    proof (cases ys')
      case Nil
      with xs h(3) show ?thesis by simp
    next
      case (Cons a as)
      with xs h(3) show ?thesis by blast
    qed
  next
    assume ?R
    then show ?L
    proof
      assume "run r (False, xs) \<noteq> []"
      then have "x # xs = [x] @ xs \<and> [x] \<noteq> [] \<and> run r (False, xs) \<noteq> []" by simp
      then show ?L by blast
    next
      assume "\<exists>ys zs. xs = ys @ zs \<and> ys \<noteq> [] \<and> run r (False, zs) \<noteq> []"
      then obtain ys zs where "xs = ys @ zs" "ys \<noteq> []" "run r (False, zs) \<noteq> []" by blast
      then have "x # xs = (x # ys) @ zs \<and> x # ys \<noteq> [] \<and> run r (False, zs) \<noteq> []" by simp
      then show ?L by blast
    qed
  qed
  with Cons.IH [of False] show ?case by auto
qed

lemma regexTest_literalRegex: "regexTest (literalRegex p) s = literalMatch p s"
proof -
  have a: "(\<exists>ys zs. s = ys @ zs \<and> ys \<noteq> [] \<and> zs = ''/'' @ p) \<or> s = ''/'' @ p
             \<longleftrightarrow> suffix (''/'' @ p) s"
    by (auto simp: suffix_def)
  have b: "(\<exists>ys zs. s = ys @ zs \<and> ys \<noteq> [] \<and> prefix (p @ ''/'') zs) \<or> prefix (p @ ''/'') s
             \<longleftrightarrow> sublist (p @ ''/'') s"
  proof
    assume "(\<exists>ys zs. s = ys @ zs \<and> ys \<noteq> [] \<and> prefix (p @ ''/'') zs) \<or> prefix (p @ ''/'') s"
    then show "sublist (p @ ''/'') s"
      by (auto simp: sublist_def prefix_def)
  next
    assume "sublist (p @ ''/'') s"
    then obtain ps ss where s: "s = ps @ (p @ ''/'') @ ss" by (auto simp: sublist_def)
    show "(\<exists>ys zs. s = ys @ zs \<and> ys \<noteq> [] \<and> prefix (p @ ''/'') zs) \<or> prefix (p @ ''/'') s"
    proof (cases ps)
      case Nil
      with s show ?thesis by simp
    next
      case (Cons a as)
      with s have "s = ps @ ((p @ ''/'') @ ss) \<and> ps \<noteq> [] \<and> prefix (p @ ''/'') ((p @ ''/'') @ ss)"
        by simp
      then show ?thesis by blast
    qed
  qed
  have "regexTest (literalRegex p) s \<longleftrightarrow>
      (s = p \<or> prefix (p @ ''/'') s \<or> s = ''/'' @ p)
      \<or> (\<exists>ys zs. s = ys @ zs \<and> ys \<noteq> [] \<and> (prefix (p @ ''/'') zs \<or> zs = ''/'' @ p))"
    by (simp only: regexTest_def testFrom_iff accepts_literalRegex simp_thms)
  also have "\<dots> \<longleftrightarrow> s = p
      \<or> ((\<exists>ys zs. s = ys @ zs \<and> ys \<noteq> [] \<and> prefix (p @ ''/'') zs) \<or> prefix (p @ ''/'') s)
      \<or> ((\<exists>ys zs. s = ys @ zs \<and> ys \<noteq> [] \<and> zs = ''/'' @ p) \<or> s = ''/'' @ p)"
    by blast
  finally show ?thesis
    by (simp only: a b literalMatch_def)
qed

lemma isIgnoredRel_plain:
  "list_all plainPattern patterns \<Longrightarrow>
     isIgnoredRel rel patterns = Inr (list_ex (\<lambda>p. literalMatch p rel) patterns)"
  by (induction patterns) (simp_all add: regexCompile_plain regexTest_literalRegex)

text \<open>
  C2, as the code has it.  When every ignore pattern is plain (no character with a
  meaning in regular expressions but the dot), the path matcher never throws, and it
  ignores a path exactly when, for one of the patterns, the relative path is the
  pattern, or contains the pattern followed by a slash, or ends with a slash followed
  by the pattern.
\<close>

theorem isIgnored_plain_patterns:
  assumes "list_all plainPattern patterns"
  shows "isIgnored wd filePath patterns
           = Inr (list_ex (\<lambda>p. literalMatch p (relative wd filePath)) patterns)"
  using assms by (simp add: isIgnored_def isIgnoredRel_plain)

theorem isIgnored_plain_patterns_witness:
  "list_all plainPattern [''build'', ''a.b'']
   \<and> isIgnored [''repo''] [''repo'', ''a.b''] [''build'', ''a.b''] = Inr True
   \<and> isIgnored [''repo''] [''repo'', ''axb''] [''build'', ''a.b''] = Inr False"
proof -
  have h: "list_all plainPattern [''build'', ''a.b'']"
    by code_simp
  have v1: "list_ex (\<lambda>p. literalMatch p (relative [''repo''] [''repo'', ''a.b'']))
              [''build'', ''a.b''] = True"
    by code_simp
  have v2: "list_ex (\<lambda>p. literalMatch p (relative [''repo''] [''repo'', ''axb'']))
              [''build'', ''a.b''] = False"
    by code_simp
  from isIgnored_plain_patterns [OF h, of "[''repo'']" "[''repo'', ''a.b'']"] v1
  have c1: "isIgnored [''repo''] [''repo'', ''a.b''] [''build'', ''a.b''] = Inr True"
    by (simp only:)
  from isIgnored_plain_patterns [OF h, of "[''repo'']" "[''repo'', ''axb'']"] v2
  have c2: "isIgnored [''repo''] [''repo'', ''axb''] [''build'', ''a.b''] = Inr False"
    by (simp only:)
  from h c1 c2 show ?thesis by blast
qed

text \<open>The plain pattern \<open>build\<close> ignores the path \<open>build/x\<close>, which is not the pattern.\<close>

theorem plain_pattern_matches_below_directory:
  "isIgnored [''repo''] [''repo'', ''build'', ''x''] [''build''] = Inr True
   \<and> relative [''repo''] [''repo'', ''build'', ''x''] = ''build/x''"
  by code_simp

section \<open>The content search\<close>

lemma searchInFiles_file:
  assumes "targetNode e basePath = Inr (File (Some content))"
  shows "searchInFiles e basePath searchTerm =
           ([], if contentMatches content searchTerm
                then [relative (cwd e) (targetPath e basePath)] else [])"
  using assms
  by (simp add: searchInFiles_def targetNode_def targetPath_def existsSync_def
        readFileSync_def Let_def)

lemma scanFiles_result:
  "snd (scanFiles e searchTerm files)
     = map (relative (cwd e)) (filter (readableMatch e searchTerm) files)"
  by (induction files)
     (auto simp: readableMatch_def contentMatches_sublist split: prod.splits sum.splits)

lemma searchInFiles_directory:
  assumes "targetNode e basePath = Inr (Dir es)"
    and "getAllFiles e (targetPath e basePath) = Inr files"
  shows "snd (searchInFiles e basePath searchTerm)
           = map (relative (cwd e)) (filter (readableMatch e searchTerm) files)"
  using assms
  by (simp add: searchInFiles_def targetNode_def targetPath_def existsSync_def Let_def
        scanFiles_result)

lemma todo_examples: "contentMatches ''TODO'' ''todo'' \<and> contentMatches ''todo'' ''TODO''"
  by code_simp

text \<open>
  C5.  The test of a content against a search term holds exactly when the lower-cased
  search term is a substring of the lower-cased content.  When the base path names a
  regular file that can be read, the file is reported exactly when its content passes
  this test; when it names a directory, the files reported are, in the order of the
  walk, those files of the walk that can be read and whose content passes the test.
  In particular the term \<open>todo\<close> matches the content \<open>TODO\<close>, and the term \<open>TODO\<close> the
  content \<open>todo\<close>.
\<close>

theorem search_is_case_insensitive:
  "contentMatches content searchTerm = sublist (toLowerCase searchTerm) (toLowerCase content)
   \<and> (targetNode e basePath = Inr (File (Some content)) \<longrightarrow>
        snd (searchInFiles e basePath searchTerm)
          = (if sublist (toLowerCase searchTerm) (toLowerCase content)
             then [relative (cwd e) (targetPath e basePath)] else []))
   \<and> (targetNode e basePath = Inr (Dir es) \<longrightarrow>
      getAllFiles e (targetPath e basePath) = Inr files \<longrightarrow>
        snd (searchInFiles e basePath searchTerm)
          = map (relative (cwd e)) (filter (readableMatch e searchTerm) files))
   \<and> contentMatches ''TODO'' ''todo'' \<and> contentMatches ''todo'' ''TODO''"
  using todo_examples
  by (simp add: contentMatches_sublist searchInFiles_file searchInFiles_directory)

theorem search_is_case_insensitive_witness:
  "targetNode repoSample ''debug.log'' = Inr (File (Some ''a todo item''))
   \<and> snd (searchInFiles repoSample ''debug.log'' ''TODO'') = [''debug.log'']
   \<and> targetNode repoSample ''src/''
       = Inr (Dir [(''a.js'', File (Some ''has TODO'')), (''a.test.js'', File (Some ''TODO'')),
                   (''b.js'', File (Some ''nothing''))])
   \<and> getAllFiles repoSample (targetPath repoSample ''src/'')
       = Inr [[''repo'', ''src'', ''a.js''], [''repo'', ''src'', ''b.js'']]
   \<and> snd (searchInFiles repoSample ''src/'' ''todo'') = [''src/a.js'']"
proof -
  have h1: "targetNode repoSample ''debug.log'' = Inr (File (Some ''a todo item''))"
    by code_simp
  have v1: "(if sublist (toLowerCase ''TODO'') (toLowerCase ''a todo item'')
             then [relative (cwd repoSample) (targetPath repoSample ''debug.log'')] else [])
            = [''debug.log'']"
    by code_simp
  have h2: "targetNode repoSample ''src/''
       = Inr (Dir [(''a.js'', File (Some ''has TODO'')), (''a.test.js'', File (Some ''TODO'')),
                   (''b.js'', File (Some ''nothing''))])"
    by code_simp
  have h3: "getAllFiles repoSample (targetPath repoSample ''src/'')
       = Inr [[''repo'', ''src'', ''a.js''], [''repo'', ''src'', ''b.js'']]"
    by code_simp
  have v2: "map (relative (cwd repoSample))
              (filter (readableMatch repoSample ''todo'')
                 [[''repo'', ''src'', ''a.js''], [''repo'', ''src'', ''b.js'']])
            = [''src/a.js'']"
    by code_simp
  from search_is_case_insensitive [of "''a todo item''" "''TODO''" repoSample "''debug.log''"] h1
  have "snd (searchInFiles repoSample ''debug.log'' ''TODO'')
          = (if sublist (toLowerCase ''TODO'') (toLowerCase ''a todo item'')
             then [relative (cwd repoSample) (targetPath repoSample ''debug.log'')] else [])"
    by blast
  with v1 have c1: "snd (searchInFiles repoSample ''debug.log'' ''TODO'') = [''debug.log'']"
    by (simp only:)
  from search_is_case_insensitive [of _ "''todo''" repoSample "''src/''" _
         "[[''repo'', ''src'', ''a.js''], [''repo'', ''src'', ''b.js'']]"] h2 h3
  have "snd (searchInFiles repoSample ''src/'' ''todo'')
          = map (relative (cwd repoSample))
              (filter (readableMatch repoSample ''todo'')
                 [[''repo'', ''src'', ''a.js''], [''repo'', ''src'', ''b.js'']])"
    by blast
  with v2 have c2: "snd (searchInFiles repoSample ''src/'' ''todo'') = [''src/a.js'']"
    by (simp only:)
  from h1 c1 h2 h3 c2 show ?thesis by blast
qed

section \<open>Ignore patterns and single files\<close>

lemma walkEntries_extends:
  "walkEntries wd patterns dirPath es acc = Inr res \<Longrightarrow>
     \<exists>new. res = acc @ new \<and> (\<forall>f \<in> set new. isIgnored wd f patterns = Inr False)"
proof (induction wd patterns dirPath es acc arbitrary: res rule: walkEntries.induct)
  case (1 wd patterns dirPath arrayOfFiles)
  then show ?case by simp
next
  case (2 wd patterns dirPath name n rest arrayOfFiles)
  show ?case
  proof (cases "isIgnored wd (dirPath @ [name]) patterns")
    case (Inl x)
    with "2.prems" show ?thesis by simp
  next
    case (Inr b)
    show ?thesis
    proof (cases b)
      case True
      with Inr "2.prems" "2.IH"(1) show ?thesis by simp
    next
      case False
      then have nb: "b = False" by simp
      show ?thesis
      proof (cases n)
        case (File c)
        with Inr nb "2.prems"
        have w: "walkEntries wd patterns dirPath rest (arrayOfFiles @ [dirPath @ [name]]) = Inr res"
          by simp
        have "\<exists>new. res = (arrayOfFiles @ [dirPath @ [name]]) @ new
                \<and> (\<forall>f \<in> set new. isIgnored wd f patterns = Inr False)"
          using "2.IH" Inr nb File w by blast
        then obtain new where "res = (arrayOfFiles @ [dirPath @ [name]]) @ new"
          and "\<forall>f \<in> set new. isIgnored wd f patterns = Inr False" by blast
        with Inr nb show ?thesis
          by (intro exI [of _ "(dirPath @ [name]) # new"]) simp
      next
        case (Dir es)
        with Inr nb "2.prems" obtain found where
          f1: "walkEntries wd patterns (dirPath @ [name]) es arrayOfFiles = Inr found"
          and f2: "walkEntries wd patterns dirPath rest found = Inr res"
          by (auto split: sum.splits)
        have "\<exists>new. found = arrayOfFiles @ new
                \<and> (\<forall>f \<in> set new. isIgnored wd f patterns = Inr False)"
          using "2.IH" Inr nb Dir f1 by blast
        then obtain new1 where n1: "found = arrayOfFiles @ new1"
          "\<forall>f \<in> set new1. isIgnored wd f patterns = Inr False" by blast
        have "\<exists>new. res = found @ new
                \<and> (\<forall>f \<in> set new. isIgnored wd f patterns = Inr False)"
          using "2.IH" Inr nb Dir f1 f2 by blast
        then obtain new2 where n2: "res = found @ new2"
          "\<forall>f \<in> set new2. isIgnored wd f patterns = Inr False" by blast
        from n1 n2 show ?thesis
          by (intro exI [of _ "new1 @ new2"]) auto
      qed
    qed
  qed
qed

lemma getAllFiles_not_ignored:
  assumes "getAllFiles e dirPath = Inr files" and "parseGitignore e = Inr patterns"
    and "f \<in> set files"
  shows "isIgnored (cwd e) f patterns = Inr False"
proof -
  from assms(1,2) obtain es where "walkEntries (cwd e) patterns dirPath es [] = Inr files"
    by (auto simp: getAllFiles_def split: sum.splits)
  from walkEntries_extends [OF this] assms(3) show ?thesis by auto
qed

text \<open>
  C9.  When the base path names a regular file that can be read, \<open>searchInFiles\<close> tests
  its content and reports it when it matches, although the path matcher ignores the
  file under the patterns of the ignore file; no warning or error is logged.  The
  patterns filter the walk of a directory only: no file that \<open>getAllFiles\<close> returns is
  ignored under them.
\<close>

theorem ignored_single_file_is_searched:
  assumes "targetNode e basePath = Inr (File (Some content))"
    and "parseGitignore e = Inr patterns"
    and "isIgnored (cwd e) (targetPath e basePath) patterns = Inr True"
  shows "searchInFiles e basePath searchTerm =
           ([], if contentMatches content searchTerm
                then [relative (cwd e) (targetPath e basePath)] else [])
       \<and> (\<forall>dirPath files. getAllFiles e dirPath = Inr files \<longrightarrow>
             (\<forall>f \<in> set files. isIgnored (cwd e) f patterns = Inr False))"
  using assms(1,2) by (auto simp: searchInFiles_file getAllFiles_not_ignored)

theorem ignored_single_file_is_searched_witness:
  "targetNode repoSample ''debug.log'' = Inr (File (Some ''a todo item''))
   \<and> parseGitignore repoSample = Inr [''*.test.js'', ''*.log'']
   \<and> isIgnored (cwd repoSample) (targetPath repoSample ''debug.log'') [''*.test.js'', ''*.log'']
       = Inr True
   \<and> contentMatches ''a todo item'' ''todo''
   \<and> searchInFiles repoSample ''debug.log'' ''todo''
       = ([], [relative (cwd repoSample) (targetPath repoSample ''debug.log'')])
   \<and> relative (cwd repoSample) (targetPath repoSample ''debug.log'') = ''debug.log''"
proof -
  have h1: "targetNode repoSample ''debug.log'' = Inr (File (Some ''a todo item''))"
    by code_simp
  have h2: "parseGitignore repoSample = Inr [''*.test.js'', ''*.log'']"
    by code_simp
  have h3: "isIgnored (cwd repoSample) (targetPath repoSample ''debug.log'')
              [''*.test.js'', ''*.log''] = Inr True"
    by code_simp
  have m: "contentMatches ''a todo item'' ''todo''"
    by code_simp
  have r: "relative (cwd repoSample) (targetPath repoSample ''debug.log'') = ''debug.log''"
    by code_simp
  from ignored_single_file_is_searched [OF h1 h2 h3, of "''todo''"] m
  have c: "searchInFiles repoSample ''debug.log'' ''todo''
       = ([], [relative (cwd repoSample) (targetPath repoSample ''debug.log'')])"
    by simp
  from h1 h2 h3 m c r show ?thesis by blast
qed

section \<open>Deduplication\<close>

lemma snd_searchEntries_Cons:
  "snd (searchEntries e searchTerm team (en # entries) acc)
     = (if ownedBy team en
        then snd (searchEntries e searchTerm team entries
                    (foldl setAdd acc (snd (searchInFiles e (normalizedPath en) searchTerm))))
        else snd (searchEntries e searchTerm team entries acc))"
  by (simp split: prod.splits)

lemma searchEntries_distinct:
  "distinct acc \<Longrightarrow> distinct (snd (searchEntries e searchTerm team entries acc))"
  by (induction entries arbitrary: acc)
     (simp_all add: distinct_foldl_setAdd snd_searchEntries_Cons del: searchEntries.simps(2))

lemma searchEntries_keeps:
  "set acc \<subseteq> set (snd (searchEntries e searchTerm team entries acc))"
proof (induction entries arbitrary: acc)
  case Nil
  show ?case by simp
next
  case (Cons en entries)
  show ?case
  proof (cases "ownedBy team en")
    case True
    have "set acc \<subseteq> set (foldl setAdd acc (snd (searchInFiles e (normalizedPath en) searchTerm)))"
      by (simp add: set_foldl_setAdd)
    also have "\<dots> \<subseteq> set (snd (searchEntries e searchTerm team entries
                 (foldl setAdd acc (snd (searchInFiles e (normalizedPath en) searchTerm)))))"
      by (rule Cons.IH)
    finally show ?thesis using True by (simp only: snd_searchEntries_Cons if_True)
  next
    case False
    then show ?thesis using Cons.IH by (simp only: snd_searchEntries_Cons if_False)
  qed
qed

lemma searchEntries_collects:
  "en \<in> set entries \<Longrightarrow> ownedBy team en \<Longrightarrow>
     set (snd (searchInFiles e (normalizedPath en) searchTerm))
       \<subseteq> set (snd (searchEntries e searchTerm team entries acc))"
proof (induction entries arbitrary: acc)
  case Nil
  then show ?case by simp
next
  case (Cons a entries)
  show ?case
  proof (cases "en = a")
    case True
    have "set (snd (searchInFiles e (normalizedPath a) searchTerm))
            \<subseteq> set (foldl setAdd acc (snd (searchInFiles e (normalizedPath a) searchTerm)))"
      by (simp add: set_foldl_setAdd)
    also have "\<dots> \<subseteq> set (snd (searchEntries e searchTerm team entries
                 (foldl setAdd acc (snd (searchInFiles e (normalizedPath a) searchTerm)))))"
      by (rule searchEntries_keeps)
    finally show ?thesis using True Cons.prems by (simp only: snd_searchEntries_Cons if_True)
  next
    case False
    with Cons.prems have "en \<in> set entries" by simp
    from Cons.IH [OF this Cons.prems(2)] show ?thesis
      by (simp add: snd_searchEntries_Cons del: searchEntries.simps(2))
  qed
qed

text \<open>
  C7.  When the ownership file is parsed, and two entries owned by the requested team
  both lead the search to the file \<open>f\<close>, \<open>findCodeownersPaths\<close> returns a list without
  repetitions in which \<open>f\<close> occurs exactly once.
\<close>

theorem results_deduplicated:
  assumes "parseCodeowners e (CODEOWNERS_FILE e) = (log0, Inr entries)"
    and "entry1 \<in> set entries" and "ownedBy team entry1"
    and "entry2 \<in> set entries" and "ownedBy team entry2"
    and "f \<in> set (snd (searchInFiles e (normalizedPath entry1) searchTerm))"
    and "f \<in> set (snd (searchInFiles e (normalizedPath entry2) searchTerm))"
  shows "\<exists>log results. findCodeownersPaths e searchTerm team = (log, Inr results)
           \<and> distinct results \<and> count_list results f = 1"
proof -
  let ?r = "snd (searchEntries e searchTerm team entries [])"
  have d: "distinct ?r" by (simp add: searchEntries_distinct)
  have "f \<in> set ?r" using searchEntries_collects [OF assms(2,3)] assms(6) by blast
  with d have "count_list ?r f = 1" by (rule count_list_distinct)
  with d assms(1) show ?thesis
    by (auto simp: findCodeownersPaths_def split: prod.splits)
qed

theorem results_deduplicated_witness:
  "parseCodeowners repoSample (CODEOWNERS_FILE repoSample)
     = ([LogParsed 2 [''repo'', ''.github'', ''CODEOWNERS'']],
        Inr [\<lparr>path = ''src/'', owners = [''@team-a'']\<rparr>,
             \<lparr>path = ''/src/a.js'', owners = [''@Team-A'', ''@x'']\<rparr>])
   \<and> ownedBy ''@team-a'' \<lparr>path = ''src/'', owners = [''@team-a'']\<rparr>
   \<and> ownedBy ''@team-a'' \<lparr>path = ''/src/a.js'', owners = [''@Team-A'', ''@x'']\<rparr>
   \<and> snd (searchInFiles repoSample (normalizedPath \<lparr>path = ''src/'', owners = [''@team-a'']\<rparr>)
            ''TODO'') = [''src/a.js'']
   \<and> snd (searchInFiles repoSample
            (normalizedPath \<lparr>path = ''/src/a.js'', owners = [''@Team-A'', ''@x'']\<rparr>) ''TODO'')
       = [''src/a.js'']
   \<and> (\<exists>log results. findCodeownersPaths repoSample ''TODO'' ''@team-a'' = (log, Inr results)
         \<and> distinct results \<and> count_list results ''src/a.js'' = 1)"
proof -
  let ?e1 = "\<lparr>path = ''src/'', owners = [''@team-a'']\<rparr>"
  let ?e2 = "\<lparr>path = ''/src/a.js'', owners = [''@Team-A'', ''@x'']\<rparr>"
  have h1: "parseCodeowners repoSample (CODEOWNERS_FILE repoSample)
     = ([LogParsed 2 [''repo'', ''.github'', ''CODEOWNERS'']], Inr [?e1, ?e2])"
    by code_simp
  have h2: "ownedBy ''@team-a'' ?e1" by code_simp
  have h3: "ownedBy ''@team-a'' ?e2" by code_simp
  have s1: "snd (searchInFiles repoSample (normalizedPath ?e1) ''TODO'') = [''src/a.js'']"
    by code_simp
  have s2: "snd (searchInFiles repoSample (normalizedPath ?e2) ''TODO'') = [''src/a.js'']"
    by code_simp
  have m1: "?e1 \<in> set [?e1, ?e2]" by simp
  have m2: "?e2 \<in> set [?e1, ?e2]" by simp
  have f1: "''src/a.js'' \<in> set (snd (searchInFiles repoSample (normalizedPath ?e1) ''TODO''))"
    by (simp only: s1) simp
  have f2: "''src/a.js'' \<in> set (snd (searchInFiles repoSample (normalizedPath ?e2) ''TODO''))"
    by (simp only: s2) simp
  from results_deduplicated [OF h1 m1 h2 m2 h3 f1 f2] h1 h2 h3 s1 s2 show ?thesis
    by blast
qed

section \<open>Lines without an owner\<close>

lemma ownedBy_no_owners: "\<not> ownedBy team \<lparr>path = p, owners = []\<rparr>"
  by (simp add: ownedBy_def)

text \<open>
  C10.  A line that is not a comment, has at least two tokens and no token that starts
  with the owner sigil is parsed to an entry with its first token as path and no
  owner.  No team owns this entry.  When the line is a line of the ownership file, the
  entry is in the list of parsed entries, at the place of the line, and the total that
  \<open>parseCodeowners\<close> logs counts it.
\<close>

theorem line_without_owner_is_an_entry:
  assumes "\<not> startsWith (trim line) ''#''"
    and "splitWhitespace (trim line) = p0 # p1 # ps"
    and "list_all (\<lambda>tok. \<not> startsWith tok ''@'') (p0 # p1 # ps)"
  shows "parseLine line = Some \<lparr>path = p0, owners = []\<rparr>
       \<and> (\<forall>team. \<not> ownedBy team \<lparr>path = p0, owners = []\<rparr>)
       \<and> (splitChar LF content = before @ line # after \<longrightarrow>
            parseLines content
              = List.map_filter parseLine before @ \<lparr>path = p0, owners = []\<rparr>
                  # List.map_filter parseLine after)
       \<and> (splitChar LF content = before @ line # after \<longrightarrow>
          readFileSync e filePath False = Inr content \<longrightarrow>
            fst (parseCodeowners e filePath)
              = [LogParsed (length (List.map_filter parseLine before) + 1
                              + length (List.map_filter parseLine after)) filePath])"
proof -
  have ne: "trim line \<noteq> []"
  proof
    assume "trim line = []"
    then have "splitWhitespace (trim line) = [[]]" by (simp add: splitWhitespace.simps)
    with assms(2) show False by simp
  qed
  have "filter (\<lambda>team. startsWith team ''@'') (p0 # p1 # ps) = []"
    using assms(3) by (simp only: filter_empty_conv list_all_iff)
  with ne assms(1,2) have pl: "parseLine line = Some \<lparr>path = p0, owners = []\<rparr>"
    by (simp add: parseLine_def Let_def)
  have lines: "splitChar LF content = before @ line # after \<Longrightarrow>
      parseLines content = List.map_filter parseLine before @ \<lparr>path = p0, owners = []\<rparr>
                  # List.map_filter parseLine after"
    using pl by (simp add: parseLines_def map_filter_append List.map_filter_simps)
  have ex: "readFileSync e filePath False = Inr content \<Longrightarrow> existsSync e filePath False"
    by (auto simp: readFileSync_def existsSync_def split: sum.splits)
  show ?thesis
    using pl lines ex by (auto simp: ownedBy_no_owners parseCodeowners_def)
qed

theorem line_without_owner_is_an_entry_witness:
  "\<not> startsWith (trim ''docs/ team-b'') ''#''
   \<and> splitWhitespace (trim ''docs/ team-b'') = [''docs/'', ''team-b'']
   \<and> list_all (\<lambda>tok. \<not> startsWith tok ''@'') [''docs/'', ''team-b'']
   \<and> splitChar LF (''# owners'' @ [LF] @ ''docs/ team-b'' @ [LF] @ ''src/ @a'')
       = [''# owners''] @ ''docs/ team-b'' # [''src/ @a'']
   \<and> parseLine ''docs/ team-b'' = Some \<lparr>path = ''docs/'', owners = []\<rparr>
   \<and> parseLines (''# owners'' @ [LF] @ ''docs/ team-b'' @ [LF] @ ''src/ @a'')
       = [\<lparr>path = ''docs/'', owners = []\<rparr>, \<lparr>path = ''src/'', owners = [''@a'']\<rparr>]"
proof -
  let ?c = "''# owners'' @ [LF] @ ''docs/ team-b'' @ [LF] @ ''src/ @a''"
  have h1: "\<not> startsWith (trim ''docs/ team-b'') ''#''" by code_simp
  have h2: "splitWhitespace (trim ''docs/ team-b'') = [''docs/'', ''team-b'']" by code_simp
  have h3: "list_all (\<lambda>tok. \<not> startsWith tok ''@'') [''docs/'', ''team-b'']" by code_simp
  have h4: "splitChar LF ?c = [''# owners''] @ ''docs/ team-b'' # [''src/ @a'']" by code_simp
  have v: "List.map_filter parseLine [''# owners''] @ \<lparr>path = ''docs/'', owners = []\<rparr>
             # List.map_filter parseLine [''src/ @a'']
           = [\<lparr>path = ''docs/'', owners = []\<rparr>, \<lparr>path = ''src/'', owners = [''@a'']\<rparr>]"
    by code_simp
  note t = line_without_owner_is_an_entry [OF h1 h2 h3, of ?c "[''# owners'']" "[''src/ @a'']"]
  from t have c1: "parseLine ''docs/ team-b'' = Some \<lparr>path = ''docs/'', owners = []\<rparr>"
    by blast
  from t h4 have "parseLines ?c
      = List.map_filter parseLine [''# owners''] @ \<lparr>path = ''docs/'', owners = []\<rparr>
          # List.map_filter parseLine [''src/ @a'']"
    by blast
  with v have c2: "parseLines ?c
      = [\<lparr>path = ''docs/'', owners = []\<rparr>, \<lparr>path = ''src/'', owners = [''@a'']\<rparr>]"
    by (simp only:)
  from h1 h2 h3 h4 c1 c2 show ?thesis by blast
qed

section \<open>The wildcard pattern of the specification\<close>

lemma log_pattern_whole_path: "isIgnoredRel ''a.log'' [''*.log''] = Inr True"
  by code_simp

lemma log_pattern_below_directory: "isIgnoredRel ''dir/b.log'' [''*.log''] = Inr True"
  by code_simp

lemma log_pattern_longer_extension: "isIgnoredRel ''a.logx'' [''*.log''] = Inr False"
  by code_simp

text \<open>
  C8.  With the single ignore pattern \<open>*.log\<close>, whatever the working directory is, the path
  matcher ignores the files with the relative paths \<open>a.log\<close> and \<open>dir/b.log\<close> and does not
  ignore \<open>a.logx\<close>.
\<close>

theorem isIgnored_log_pattern:
  "isIgnored wd (wd @ [''a.log'']) [''*.log''] = Inr True
   \<and> isIgnored wd (wd @ [''dir'', ''b.log'']) [''*.log''] = Inr True
   \<and> isIgnored wd (wd @ [''a.logx'']) [''*.log''] = Inr False"
  by (simp only: isIgnored_def relative_below joinWith.simps append_Cons append_Nil
        log_pattern_whole_path log_pattern_below_directory log_pattern_longer_extension
        simp_thms)

end
